theory Spec2Isabelle
  imports Main "HOL-Library.Word" "HOL-Library.AList" "HOL-Library.Multiset"
begin

section \<open>Data model (shared schema)\<close>

text \<open>
  A JavaScript string is a sequence of UTF-16 code units; \<open>length\<close> counts code units, as
  \<^verbatim>\<open>String.prototype.length\<close> and Zod's \<^verbatim>\<open>min\<close>/\<^verbatim>\<open>max\<close> do.
  \<open>js\<close> embeds an ASCII literal.
\<close>

type_synonym jsstring = "16 word list"

definition js :: "string \<Rightarrow> jsstring" where
  "js s = map of_char s"

text \<open>
  \<^verbatim>\<open>type Task = typeof tasks.$inferSelect\<close>: the three columns of the table.
  Identifiers are JavaScript numbers holding integers. They are modelled as \<open>int\<close>, which is
  exact while the counter stays below \<open>2^53\<close> (it starts at 1 and grows by one per created
  task).
\<close>

record Task =
  task_id :: int
  task_text :: jsstring
  task_completed :: bool

text \<open>
  \<^verbatim>\<open>InsertTask\<close>: \<open>text\<close> is required, \<open>completed\<close> is optional (the column has a default).
  \<^verbatim>\<open>UpdateTask\<close>: the same two fields, both optional (\<^verbatim>\<open>.partial()\<close>).
  An absent property is \<open>None\<close>.
\<close>

record InsertTask =
  ins_text :: jsstring
  ins_completed :: "bool option"

record UpdateTask =
  upd_text :: "jsstring option"
  upd_completed :: "bool option"

section \<open>The in-memory store (class MemStorage)\<close>

text \<open>
  \<^verbatim>\<open>Map<number, Task>\<close> keeps its entries in insertion order; \<^verbatim>\<open>set\<close> on a present key
  replaces the value in place and on an absent key appends, \<^verbatim>\<open>delete\<close> removes the entry
  and tells whether there was one. This is an association list with
  \<^const>\<open>map_of\<close>, \<^const>\<open>AList.update\<close> and \<^const>\<open>AList.delete\<close>.
  Every method takes the store and returns its result together with the store after the
  call.
\<close>

record MemStorage =
  tasks :: "(int \<times> Task) list"
  currentId :: int

definition MemStorage_new :: MemStorage where
  "MemStorage_new = \<lparr>tasks = [], currentId = 1\<rparr>"

definition Map_values :: "(int \<times> Task) list \<Rightarrow> Task list" where
  "Map_values m = map snd m"

text \<open>
  \<^verbatim>\<open>Array.from(this.tasks.values()).sort((a, b) => a.id - b.id)\<close>: a stable sort by id,
  as \<^const>\<open>sort_key\<close> is.
\<close>

definition getTasks :: "MemStorage \<Rightarrow> Task list" where
  "getTasks s = sort_key task_id (Map_values (tasks s))"

definition getTask :: "int \<Rightarrow> MemStorage \<Rightarrow> Task option" where
  "getTask i s = map_of (tasks s) i"

text \<open>\<^verbatim>\<open>insertTask.completed || false\<close> is \<open>false\<close> for an absent property.\<close>

definition createTask :: "InsertTask \<Rightarrow> MemStorage \<Rightarrow> Task \<times> MemStorage" where
  "createTask insertTask s =
     (let i = currentId s;
          task = \<lparr>task_id = i,
                  task_text = ins_text insertTask,
                  task_completed = (case ins_completed insertTask of None \<Rightarrow> False | Some b \<Rightarrow> b)\<rparr>
      in (task, s\<lparr>tasks := AList.update i task (tasks s), currentId := currentId s + 1\<rparr>))"

text \<open>
  \<^verbatim>\<open>{...existingTask, ...updates}\<close>: a property present in \<open>updates\<close> replaces the one
  of the existing task, the others are kept. \<^verbatim>\<open>UpdateTask\<close> has no \<open>id\<close> property.
\<close>

definition updateTask :: "int \<Rightarrow> UpdateTask \<Rightarrow> MemStorage \<Rightarrow> Task option \<times> MemStorage" where
  "updateTask i updates s =
     (case map_of (tasks s) i of
        None \<Rightarrow> (None, s)
      | Some existingTask \<Rightarrow>
          (let updatedTask = existingTask
                 \<lparr>task_text := (case upd_text updates of None \<Rightarrow> task_text existingTask | Some t \<Rightarrow> t),
                  task_completed :=
                    (case upd_completed updates of None \<Rightarrow> task_completed existingTask | Some c \<Rightarrow> c)\<rparr>
           in (Some updatedTask, s\<lparr>tasks := AList.update i updatedTask (tasks s)\<rparr>)))"

definition deleteTask :: "int \<Rightarrow> MemStorage \<Rightarrow> bool \<times> MemStorage" where
  "deleteTask i s = (map_of (tasks s) i \<noteq> None, s\<lparr>tasks := AList.delete i (tasks s)\<rparr>)"

text \<open>
  The completed tasks are collected first; \<^verbatim>\<open>forEach\<close> then deletes the entry whose key
  is the id of each of them.
\<close>

definition clearCompletedTasks :: "MemStorage \<Rightarrow> nat \<times> MemStorage" where
  "clearCompletedTasks s =
     (let completedTasks = filter task_completed (Map_values (tasks s));
          count = length completedTasks
      in (count, fold (\<lambda>task st. snd (deleteTask (task_id task) st)) completedTasks s))"

text \<open>
  The invariant of the store: the counter is at least 1, keys are distinct (a \<^verbatim>\<open>Map\<close>
  holds each key once), every task is stored under its own id, and every id in use is at
  least 1 and below the counter.
\<close>

definition wf_store :: "MemStorage \<Rightarrow> bool" where
  "wf_store s \<longleftrightarrow>
     1 \<le> currentId s \<and>
     distinct (map fst (tasks s)) \<and>
     list_all (\<lambda>(k, t). task_id t = k \<and> 1 \<le> k \<and> k < currentId s) (tasks s)"

text \<open>
  The mutating calls of the store interface, a run of such calls, and the records that the
  \<open>createTask\<close> calls of a run return, in call order.
\<close>

datatype store_op = Create InsertTask | Update int UpdateTask | Delete int | ClearCompleted

fun apply_op :: "store_op \<Rightarrow> MemStorage \<Rightarrow> MemStorage" where
  "apply_op (Create insertTask) s = snd (createTask insertTask s)"
| "apply_op (Update i updates) s = snd (updateTask i updates s)"
| "apply_op (Delete i) s = snd (deleteTask i s)"
| "apply_op ClearCompleted s = snd (clearCompletedTasks s)"

fun run_ops :: "store_op list \<Rightarrow> MemStorage \<Rightarrow> MemStorage" where
  "run_ops [] s = s"
| "run_ops (x # xs) s = run_ops xs (apply_op x s)"

fun created :: "store_op list \<Rightarrow> MemStorage \<Rightarrow> Task list" where
  "created [] s = []"
| "created (Create insertTask # xs) s =
     fst (createTask insertTask s) # created xs (snd (createTask insertTask s))"
| "created (x # xs) s = created xs (apply_op x s)"

section \<open>Request validation (Zod schemas)\<close>

text \<open>
  \<open>req.body\<close> is a JSON value; the members of an object are its own properties.
  Numbers are carried as \<open>int\<close>: both schemas reject every number, so its value is never
  read.
\<close>

datatype json =
    JNull
  | JBool bool
  | JNumber int
  | JString jsstring
  | JArray "json list"
  | JObject "(jsstring \<times> json) list"

text \<open>
  \<^verbatim>\<open>schema.parse\<close> either returns the validated data (unknown properties stripped) or
  throws a \<^verbatim>\<open>ZodError\<close>; the handlers read only \<^verbatim>\<open>error.errors[0].message\<close>, the
  message of the first issue, which is what \<open>Inl\<close> carries. Issues come in the order of the
  schema's properties, \<open>text\<close> before \<open>completed\<close>. The two messages given in the schema are
  spelled out; a type mismatch (a missing required property included) has the library's
  default message, \<open>Zod_invalid_type\<close>.

  \<^verbatim>\<open>insertTaskSchema\<close>: \<open>text\<close> is a string of 1 to 500 code units, \<open>completed\<close> an
  optional boolean.
  \<^verbatim>\<open>updateTaskSchema\<close>: the picked columns made optional; \<open>text\<close> is any string (the
  \<^verbatim>\<open>extend\<close> with the length bounds is applied to the insert schema only).
\<close>

datatype message = Text string | Zod_invalid_type

definition insertTaskSchema :: "json \<Rightarrow> message + InsertTask" where
  "insertTaskSchema data =
     (case data of
        JObject props \<Rightarrow>
          (case (case map_of props (js ''text'') of
                   Some (JString t) \<Rightarrow>
                     if length t < 1 then Inl (Text ''Task text is required'')
                     else if length t > 500 then Inl (Text ''Task text is too long'')
                     else Inr t
                 | _ \<Rightarrow> Inl Zod_invalid_type) of
             Inl m \<Rightarrow> Inl m
           | Inr t \<Rightarrow>
               (case map_of props (js ''completed'') of
                  None \<Rightarrow> Inr \<lparr>ins_text = t, ins_completed = None\<rparr>
                | Some (JBool c) \<Rightarrow> Inr \<lparr>ins_text = t, ins_completed = Some c\<rparr>
                | Some _ \<Rightarrow> Inl Zod_invalid_type))
      | _ \<Rightarrow> Inl Zod_invalid_type)"

definition updateTaskSchema :: "json \<Rightarrow> message + UpdateTask" where
  "updateTaskSchema data =
     (case data of
        JObject props \<Rightarrow>
          (case (case map_of props (js ''text'') of
                   None \<Rightarrow> Inr None
                 | Some (JString t) \<Rightarrow> Inr (Some t)
                 | Some _ \<Rightarrow> Inl Zod_invalid_type) of
             Inl m \<Rightarrow> Inl m
           | Inr t \<Rightarrow>
               (case map_of props (js ''completed'') of
                  None \<Rightarrow> Inr \<lparr>upd_text = t, upd_completed = None\<rparr>
                | Some (JBool c) \<Rightarrow> Inr \<lparr>upd_text = t, upd_completed = Some c\<rparr>
                | Some _ \<Rightarrow> Inl Zod_invalid_type))
      | _ \<Rightarrow> Inl Zod_invalid_type)"

section \<open>parseInt\<close>

text \<open>
  A JavaScript number as far as the handlers meet one: \<open>NaN\<close>, an integer, or an infinity.
\<close>

datatype number = NaN | Num int | Infinity | NegInfinity

text \<open>
  \<^verbatim>\<open>parseInt(string)\<close> with no radix, after ECMA-262: strip leading white space and line
  terminators; read an optional sign; a following \<^verbatim>\<open>0x\<close> or \<^verbatim>\<open>0X\<close> selects radix 16,
  otherwise the radix is 10; take the longest prefix of digits of that radix; if it is
  empty the result is \<open>NaN\<close>, otherwise the signed value of the digits as a number, that
  is, rounded to the nearest double (ties to the even significand, an infinity from
  \<open>2^1024\<close> on). Below \<open>2^53\<close> the value is exact. \<^verbatim>\<open>isNaN(id)\<close> is the test for \<open>NaN\<close>.

  \<open>exponent n\<close> is the number of low bits a double cannot keep of \<open>n\<close>.
\<close>

definition isWhiteSpace :: "16 word \<Rightarrow> bool" where
  "isWhiteSpace c \<longleftrightarrow>
     c = 0x0009 \<or> c = 0x000A \<or> c = 0x000B \<or> c = 0x000C \<or> c = 0x000D \<or> c = 0x0020 \<or>
     c = 0x00A0 \<or> c = 0x1680 \<or> (0x2000 \<le> c \<and> c \<le> 0x200A) \<or> c = 0x2028 \<or> c = 0x2029 \<or>
     c = 0x202F \<or> c = 0x205F \<or> c = 0x3000 \<or> c = 0xFEFF"

definition digitValue :: "16 word \<Rightarrow> nat option" where
  "digitValue c =
     (if 0x30 \<le> c \<and> c \<le> 0x39 then Some (unat c - 48)
      else if 0x61 \<le> c \<and> c \<le> 0x7A then Some (unat c - 87)
      else if 0x41 \<le> c \<and> c \<le> 0x5A then Some (unat c - 55)
      else None)"

definition isDigit :: "nat \<Rightarrow> 16 word \<Rightarrow> bool" where
  "isDigit R c = (case digitValue c of None \<Rightarrow> False | Some d \<Rightarrow> d < R)"

definition digitsValue :: "nat \<Rightarrow> jsstring \<Rightarrow> int" where
  "digitsValue R Z =
     foldl (\<lambda>n c. n * int R + (case digitValue c of None \<Rightarrow> 0 | Some d \<Rightarrow> int d)) 0 Z"

function exponent :: "int \<Rightarrow> nat" where
  "exponent n = (if n < 2 ^ 53 then 0 else Suc (exponent (n div 2)))"
  by pat_completeness auto
termination
  by (relation "measure nat") auto

definition roundToDouble :: "int \<Rightarrow> int option" where
  "roundToDouble n =
     (let e = exponent n;
          q = n div 2 ^ e;
          r = n mod 2 ^ e;
          m = (if 2 ^ e < 2 * r \<or> (2 * r = 2 ^ e \<and> odd q) then q + 1 else q)
      in if m * 2 ^ e < 2 ^ 1024 then Some (m * 2 ^ e) else None)"

definition parseInt :: "jsstring \<Rightarrow> number" where
  "parseInt inputString =
     (let S = dropWhile isWhiteSpace inputString;
          sign = (case S of c # _ \<Rightarrow> if c = 0x2D then - 1 else 1 | [] \<Rightarrow> (1::int));
          S1 = (case S of c # rest \<Rightarrow> if c = 0x2B \<or> c = 0x2D then rest else S | [] \<Rightarrow> S);
          hex = (case S1 of a # b # _ \<Rightarrow> a = 0x30 \<and> (b = 0x78 \<or> b = 0x58) | _ \<Rightarrow> False);
          R = (if hex then 16 else 10);
          S2 = (if hex then drop 2 S1 else S1);
          Z = takeWhile (isDigit R) S2
      in if Z = [] then NaN
         else (case roundToDouble (digitsValue R Z) of
                 Some m \<Rightarrow> Num (sign * m)
               | None \<Rightarrow> if sign = 1 then Infinity else NegInfinity))"

section \<open>decodeURIComponent\<close>

text \<open>
  \<^verbatim>\<open>decodeURIComponent\<close> after ECMA-262 (Decode with an empty reserved set): a code unit
  other than \<^verbatim>\<open>%\<close> is copied; \<^verbatim>\<open>%\<close> must be followed by two hexadecimal digits, giving
  an octet \<open>B\<close>. With \<open>n\<close> the number of leading 1 bits of \<open>B\<close>: for \<open>n = 0\<close> the result
  is the code unit \<open>B\<close>; \<open>n = 1\<close> and \<open>n > 4\<close> fail; otherwise the \<open>n\<close> escapes
  starting here must be the UTF-8 encoding of a code point, which is appended in UTF-16.
  \<open>None\<close> is the \<^verbatim>\<open>URIError\<close>.
\<close>

definition hexOctet :: "16 word \<Rightarrow> 16 word \<Rightarrow> nat option" where
  "hexOctet a b =
     (case (digitValue a, digitValue b) of
        (Some x, Some y) \<Rightarrow> if x < 16 \<and> y < 16 then Some (16 * x + y) else None
      | _ \<Rightarrow> None)"

fun escapes :: "nat \<Rightarrow> jsstring \<Rightarrow> nat list option" where
  "escapes 0 string = Some []"
| "escapes (Suc j) (p # a # b # rest) =
     (if p = 0x25 then
        (case hexOctet a b of
           None \<Rightarrow> None
         | Some B \<Rightarrow> (case escapes j rest of None \<Rightarrow> None | Some Octets \<Rightarrow> Some (B # Octets)))
      else None)"
| "escapes (Suc j) string = None"

definition leadingOnes :: "nat \<Rightarrow> nat" where
  "leadingOnes B =
     (if B < 128 then 0 else if B < 192 then 1 else if B < 224 then 2
      else if B < 240 then 3 else if B < 248 then 4 else 5)"

definition continuation :: "nat \<Rightarrow> bool" where
  "continuation B \<longleftrightarrow> 128 \<le> B \<and> B < 192"

fun utf8CodePoint :: "nat list \<Rightarrow> nat option" where
  "utf8CodePoint [b0, b1] =
     (let V = (b0 mod 32) * 64 + b1 mod 64
      in if continuation b1 \<and> 128 \<le> V then Some V else None)"
| "utf8CodePoint [b0, b1, b2] =
     (let V = (b0 mod 16) * 4096 + (b1 mod 64) * 64 + b2 mod 64
      in if continuation b1 \<and> continuation b2 \<and> 2048 \<le> V \<and> \<not> (55296 \<le> V \<and> V \<le> 57343)
         then Some V else None)"
| "utf8CodePoint [b0, b1, b2, b3] =
     (let V = (b0 mod 8) * 262144 + (b1 mod 64) * 4096 + (b2 mod 64) * 64 + b3 mod 64
      in if continuation b1 \<and> continuation b2 \<and> continuation b3 \<and> 65536 \<le> V \<and> V \<le> 1114111
         then Some V else None)"
| "utf8CodePoint Octets = None"

definition UTF16EncodeCodePoint :: "nat \<Rightarrow> jsstring" where
  "UTF16EncodeCodePoint V =
     (if V < 65536 then [of_nat V]
      else [of_nat (55296 + (V - 65536) div 1024), of_nat (56320 + (V - 65536) mod 1024)])"

function decodeURIComponent :: "jsstring \<Rightarrow> jsstring option" where
  "decodeURIComponent [] = Some []"
| "decodeURIComponent (C # string) =
     (if C \<noteq> 0x25 then
        (case decodeURIComponent string of None \<Rightarrow> None | Some R \<Rightarrow> Some (C # R))
      else
        (case escapes 1 (C # string) of
           Some [B] \<Rightarrow>
             (let n = leadingOnes B in
              if n = 0 then
                (case decodeURIComponent (drop 2 string) of
                   None \<Rightarrow> None
                 | Some R \<Rightarrow> Some (of_nat B # R))
              else if n = 1 \<or> 4 < n then None
              else
                (case escapes n (C # string) of
                   None \<Rightarrow> None
                 | Some Octets \<Rightarrow>
                     (case utf8CodePoint Octets of
                        None \<Rightarrow> None
                      | Some V \<Rightarrow>
                          (case decodeURIComponent (drop (3 * n - 1) string) of
                             None \<Rightarrow> None
                           | Some R \<Rightarrow> Some (UTF16EncodeCodePoint V @ R)))))
         | _ \<Rightarrow> None))"
  by pat_completeness auto
termination
  by (relation "measure length") auto

section \<open>Route handlers (registerRoutes)\<close>

text \<open>
  A response is its status code and its body. \<^verbatim>\<open>res.json(x)\<close> without a status sends 200.
  A handler receives the route parameters, the request body and the store. The store
  methods of \<open>MemStorage\<close> never throw, so the handlers' branches for other errors
  (status 500) are never taken and are not part of the model.
\<close>

datatype body = Json_tasks "Task list" | Json_task Task | Json_message message
  | Json_deletedCount nat | Empty | Failed_to_decode_param

record response =
  status :: nat
  body :: body

type_synonym params = "(string \<times> jsstring) list"
type_synonym handler = "params \<Rightarrow> json \<Rightarrow> MemStorage \<Rightarrow> response \<times> MemStorage"

definition get_tasks :: handler where
  "get_tasks params reqBody s = (\<lparr>status = 200, body = Json_tasks (getTasks s)\<rparr>, s)"

definition post_tasks :: handler where
  "post_tasks params reqBody s =
     (case insertTaskSchema reqBody of
        Inl m \<Rightarrow> (\<lparr>status = 400, body = Json_message m\<rparr>, s)
      | Inr validatedData \<Rightarrow>
          (case createTask validatedData s of
             (task, s') \<Rightarrow> (\<lparr>status = 201, body = Json_task task\<rparr>, s')))"

text \<open>
  The store methods called with a parsed id. The keys of the map are the integers issued
  by the counter, so no entry has an infinite key: \<^verbatim>\<open>Map.get\<close> is \<open>undefined\<close> and
  \<^verbatim>\<open>Map.delete\<close> is \<open>false\<close> there, and the store is unchanged.
\<close>

definition updateTask_at :: "number \<Rightarrow> UpdateTask \<Rightarrow> MemStorage \<Rightarrow> Task option \<times> MemStorage" where
  "updateTask_at n updates s = (case n of Num i \<Rightarrow> updateTask i updates s | _ \<Rightarrow> (None, s))"

definition deleteTask_at :: "number \<Rightarrow> MemStorage \<Rightarrow> bool \<times> MemStorage" where
  "deleteTask_at n s = (case n of Num i \<Rightarrow> deleteTask i s | _ \<Rightarrow> (False, s))"

text \<open>
  \<^verbatim>\<open>parseInt(req.params.id)\<close>: an absent parameter is \<open>undefined\<close>, which \<open>parseInt\<close>
  maps to \<open>NaN\<close>.
\<close>

definition put_task :: handler where
  "put_task params reqBody s =
     (let i = (case map_of params ''id'' of None \<Rightarrow> NaN | Some p \<Rightarrow> parseInt p) in
      if i = NaN then (\<lparr>status = 400, body = Json_message (Text ''Invalid task ID'')\<rparr>, s)
      else
        (case updateTaskSchema reqBody of
           Inl m \<Rightarrow> (\<lparr>status = 400, body = Json_message m\<rparr>, s)
         | Inr validatedData \<Rightarrow>
             (case updateTask_at i validatedData s of
                (None, s') \<Rightarrow> (\<lparr>status = 404, body = Json_message (Text ''Task not found'')\<rparr>, s')
              | (Some task, s') \<Rightarrow> (\<lparr>status = 200, body = Json_task task\<rparr>, s'))))"

definition delete_task :: handler where
  "delete_task params reqBody s =
     (let i = (case map_of params ''id'' of None \<Rightarrow> NaN | Some p \<Rightarrow> parseInt p) in
      if i = NaN then (\<lparr>status = 400, body = Json_message (Text ''Invalid task ID'')\<rparr>, s)
      else
        (case deleteTask_at i s of
           (False, s') \<Rightarrow> (\<lparr>status = 404, body = Json_message (Text ''Task not found'')\<rparr>, s')
         | (True, s') \<Rightarrow> (\<lparr>status = 204, body = Empty\<rparr>, s')))"

definition delete_completed :: handler where
  "delete_completed params reqBody s =
     (case clearCompletedTasks s of
        (n, s') \<Rightarrow> (\<lparr>status = 200, body = Json_deletedCount n\<rparr>, s'))"

text \<open>
  The loop of the toggle-all handler: one \<open>updateTask\<close> per listed task, pushing each
  update that succeeded.
\<close>

fun toggle_loop :: "Task list \<Rightarrow> bool \<Rightarrow> Task list \<Rightarrow> MemStorage \<Rightarrow> Task list \<times> MemStorage" where
  "toggle_loop [] newCompletedStatus updatedTasks s = (updatedTasks, s)"
| "toggle_loop (task # rest) newCompletedStatus updatedTasks s =
     (case updateTask (task_id task) \<lparr>upd_text = None, upd_completed = Some newCompletedStatus\<rparr> s of
        (None, s') \<Rightarrow> toggle_loop rest newCompletedStatus updatedTasks s'
      | (Some updated, s') \<Rightarrow> toggle_loop rest newCompletedStatus (updatedTasks @ [updated]) s')"

definition put_toggle_all :: handler where
  "put_toggle_all params reqBody s =
     (let tasks = getTasks s;
          allCompleted = list_all task_completed tasks;
          newCompletedStatus = \<not> allCompleted
      in case toggle_loop tasks newCompletedStatus [] s of
           (updatedTasks, s') \<Rightarrow> (\<lparr>status = 200, body = Json_tasks updatedTasks\<rparr>, s'))"

section \<open>Routing (Express)\<close>

text \<open>
  A request is its method, its path and its body. The path is the URL's path as sent,
  split at the slashes: \<^verbatim>\<open>/api/tasks/7\<close> is \<open>[api, tasks, 7]\<close> and \<^verbatim>\<open>/api/tasks/7/\<close> is
  \<open>[api, tasks, 7, []]\<close>.
  A route pattern is a list of literal segments and named parameters. With Express's
  default options a literal matches its segment up to the case of ASCII letters, a
  parameter matches any one non-empty segment, and one trailing slash is allowed. When the
  path matches, each parameter is passed through \<^verbatim>\<open>decodeURIComponent\<close>; if that fails the
  match raises an error.
\<close>

datatype http_method = GET | POST | PUT | DELETE

datatype segment = Lit string | Param string

record request =
  req_method :: http_method
  req_path :: "jsstring list"
  req_body :: json

definition toLower :: "16 word \<Rightarrow> 16 word" where
  "toLower c = (if 0x41 \<le> c \<and> c \<le> 0x5A then c + 0x20 else c)"

datatype match_result = No_match | Decode_error | Matched params

fun match_path :: "segment list \<Rightarrow> jsstring list \<Rightarrow> match_result" where
  "match_path [] [] = Matched []"
| "match_path [] [x] = (if x = [] then Matched [] else No_match)"
| "match_path (Lit l # pattern) (x # path) =
     (if map toLower x = map toLower (js l) then match_path pattern path else No_match)"
| "match_path (Param name # pattern) (x # path) =
     (if x = [] then No_match
      else
        (case match_path pattern path of
           Matched ps \<Rightarrow>
             (case decodeURIComponent x of
                None \<Rightarrow> Decode_error
              | Some v \<Rightarrow> Matched ((name, v) # ps))
         | r \<Rightarrow> r))"
| "match_path _ _ = No_match"

text \<open>
  The routes in the order in which \<^verbatim>\<open>registerRoutes\<close> registers them. Express tries them
  in that order, matching the path first and the method second, and runs the first route
  whose path and method match; no handler here calls \<^verbatim>\<open>next\<close>, so no later route is tried
  after that. A parameter that fails to decode ends the search with an error of status
  400, which Express's error handling answers without running any route handler.
  \<open>None\<close>: no route of \<^verbatim>\<open>registerRoutes\<close> matches the request.
\<close>

definition routes :: "(http_method \<times> segment list \<times> handler) list" where
  "routes =
     [(GET, [Lit ''api'', Lit ''tasks''], get_tasks),
      (POST, [Lit ''api'', Lit ''tasks''], post_tasks),
      (PUT, [Lit ''api'', Lit ''tasks'', Param ''id''], put_task),
      (DELETE, [Lit ''api'', Lit ''tasks'', Param ''id''], delete_task),
      (DELETE, [Lit ''api'', Lit ''tasks'', Lit ''completed''], delete_completed),
      (PUT, [Lit ''api'', Lit ''tasks'', Lit ''toggle-all''], put_toggle_all)]"

fun dispatch :: "(http_method \<times> segment list \<times> handler) list \<Rightarrow> request \<Rightarrow> MemStorage \<Rightarrow>
    (response \<times> MemStorage) option" where
  "dispatch [] req s = None"
| "dispatch ((m, pattern, h) # rest) req s =
     (case match_path pattern (req_path req) of
        No_match \<Rightarrow> dispatch rest req s
      | Decode_error \<Rightarrow> Some (\<lparr>status = 400, body = Failed_to_decode_param\<rparr>, s)
      | Matched params \<Rightarrow>
          if m = req_method req then Some (h params (req_body req) s)
          else dispatch rest req s)"

definition handle :: "request \<Rightarrow> MemStorage \<Rightarrow> (response \<times> MemStorage) option" where
  "handle req s = dispatch routes req s"

text \<open>
  A sequence of requests served one after the other, each to completion: the responses
  and the store at the end.
\<close>

fun serve :: "request list \<Rightarrow> MemStorage \<Rightarrow> response option list \<times> MemStorage" where
  "serve [] s = ([], s)"
| "serve (req # reqs) s =
     (case handle req s of
        None \<Rightarrow> (case serve reqs s of (rs, s') \<Rightarrow> (None # rs, s'))
      | Some (res, s1) \<Rightarrow> (case serve reqs s1 of (rs, s') \<Rightarrow> (Some res # rs, s')))"

section \<open>Auxiliary notions\<close>

text \<open>
  The specification's "the id path parameter is an integer", read as: an optional minus
  sign followed by one or more decimal digits and nothing else. It is used only to state
  which parameters the specification calls non-integers.
\<close>

definition isDecimalDigit :: "16 word \<Rightarrow> bool" where
  "isDecimalDigit c \<longleftrightarrow> 0x30 \<le> c \<and> c \<le> 0x39"

definition integer_param :: "jsstring \<Rightarrow> bool" where
  "integer_param p =
     (case p of
        [] \<Rightarrow> False
      | c # ds \<Rightarrow> if c = 0x2D then ds \<noteq> [] \<and> list_all isDecimalDigit ds
                 else list_all isDecimalDigit (c # ds))"

text \<open>
  The parameters in which \<open>parseInt\<close> finds no number, described on the string itself:
  once leading white space and one optional sign are skipped, what is left is empty, or
  is \<^verbatim>\<open>0x\<close> or \<^verbatim>\<open>0X\<close> not followed by a hexadecimal digit, or else does not start with a
  decimal digit.
\<close>

definition isHexDigit :: "16 word \<Rightarrow> bool" where
  "isHexDigit c \<longleftrightarrow>
     (0x30 \<le> c \<and> c \<le> 0x39) \<or> (0x61 \<le> c \<and> c \<le> 0x66) \<or> (0x41 \<le> c \<and> c \<le> 0x46)"

definition afterSign :: "jsstring \<Rightarrow> jsstring" where
  "afterSign p =
     (case dropWhile isWhiteSpace p of
        [] \<Rightarrow> []
      | c # rest \<Rightarrow> if c = 0x2B \<or> c = 0x2D then rest else c # rest)"

definition no_leading_number :: "jsstring \<Rightarrow> bool" where
  "no_leading_number p =
     (case afterSign p of
        [] \<Rightarrow> True
      | [a] \<Rightarrow> \<not> isDecimalDigit a
      | a # b # rest \<Rightarrow>
          if a = 0x30 \<and> (b = 0x78 \<or> b = 0x58)
          then (case rest of [] \<Rightarrow> True | h # _ \<Rightarrow> \<not> isHexDigit h)
          else \<not> isDecimalDigit a)"

text \<open>
  A store with one completed and one open task, and the same tasks entered in the other
  order.
\<close>

definition example_store :: MemStorage where
  "example_store =
     \<lparr>tasks = [(1, \<lparr>task_id = 1, task_text = js ''a'', task_completed = True\<rparr>),
               (2, \<lparr>task_id = 2, task_text = js ''b'', task_completed = False\<rparr>)],
      currentId = 3\<rparr>"

definition example_store_rev :: MemStorage where
  "example_store_rev =
     \<lparr>tasks = [(2, \<lparr>task_id = 2, task_text = js ''b'', task_completed = False\<rparr>),
               (1, \<lparr>task_id = 1, task_text = js ''a'', task_completed = True\<rparr>)],
      currentId = 3\<rparr>"

section \<open>Evaluation rules\<close>

lemma escapes_numeral:
  "escapes (numeral k) (p # a # b # rest) =
     (if p = 0x25 then
        (case hexOctet a b of
           None \<Rightarrow> None
         | Some B \<Rightarrow>
             (case escapes (pred_numeral k) rest of None \<Rightarrow> None | Some Octets \<Rightarrow> Some (B # Octets)))
      else None)"
  "escapes (numeral k) [] = None"
  "escapes (numeral k) [p] = None"
  "escapes (numeral k) [p, a] = None"
  by (simp_all add: numeral_eq_Suc)

lemmas parseInt_eval =
  parseInt_def js_def isWhiteSpace_def isDigit_def digitValue_def digitsValue_def Let_def
  roundToDouble_def

lemmas decode_eval =
  hexOctet_def digitValue_def leadingOnes_def continuation_def UTF16EncodeCodePoint_def
  escapes_numeral js_def Let_def

lemmas routing_eval = handle_def routes_def js_def toLower_def decode_eval

section \<open>Association lists\<close>

lemma update_fresh_key: "k \<notin> fst ` set al \<Longrightarrow> AList.update k v al = al @ [(k, v)]"
  by (induction al) auto

lemma update_present_key:
  "map_of al k = Some w \<Longrightarrow> set (AList.update k v al) \<subseteq> insert (k, v) (set al)"
  by (induction al) (auto split: if_splits)

lemma update_distinct_map:
  "distinct (map fst al) \<Longrightarrow> map_of al k = Some w \<Longrightarrow>
     AList.update k v al = map (\<lambda>(k', t). if k' = k then (k', v) else (k', t)) al"
proof (induction al)
  case Nil
  then show ?case by simp
next
  case (Cons e al)
  obtain k' t where e: "e = (k', t)" by (cases e)
  show ?case
  proof (cases "k' = k")
    case True
    with Cons.prems e have "k \<notin> fst ` set al" by auto
    then have "map (\<lambda>(k', t). if k' = k then (k', v) else (k', t)) al = al"
      by (induction al) auto
    with True e show ?thesis by simp
  next
    case False
    with Cons e show ?thesis by simp
  qed
qed

lemma Map_values_filter:
  "Map_values (filter (\<lambda>(k, v). P v) m) = filter P (Map_values m)"
  by (induction m) (auto simp: Map_values_def)

section \<open>The store invariant\<close>

lemma wf_store_new: "wf_store MemStorage_new"
  by (simp add: wf_store_def MemStorage_new_def)

lemma wf_storeI:
  assumes "1 \<le> currentId s"
    and "distinct (map fst (tasks s))"
    and "\<And>k t. (k, t) \<in> set (tasks s) \<Longrightarrow> task_id t = k \<and> 1 \<le> k \<and> k < currentId s"
  shows "wf_store s"
  using assms by (auto simp: wf_store_def list_all_iff)

lemma wf_store_keys:
  "wf_store s \<Longrightarrow> (k, t) \<in> set (tasks s) \<Longrightarrow> task_id t = k \<and> 1 \<le> k \<and> k < currentId s"
  by (auto simp: wf_store_def list_all_iff)

lemma wf_store_distinct: "wf_store s \<Longrightarrow> distinct (map fst (tasks s))"
  by (simp add: wf_store_def)

lemma wf_store_fresh: "wf_store s \<Longrightarrow> map_of (tasks s) (currentId s) = None"
proof (rule ccontr)
  assume wf: "wf_store s" and "map_of (tasks s) (currentId s) \<noteq> None"
  then obtain t where "(currentId s, t) \<in> set (tasks s)"
    by (auto dest: map_of_SomeD)
  with wf_store_keys [OF wf this] show False by simp
qed

lemma wf_store_lookup:
  assumes "wf_store s" and "(k, t) \<in> set (tasks s)"
  shows "map_of (tasks s) (task_id t) = Some t"
proof -
  from wf_store_keys [OF assms] have "task_id t = k" by simp
  moreover from assms have "map_of (tasks s) k = Some t"
    by (simp add: wf_store_distinct)
  ultimately show ?thesis by simp
qed

lemma getTask_deleteTask:
  "getTask j (snd (deleteTask i s)) = (if j = i then None else getTask j s)"
  by (simp add: getTask_def deleteTask_def delete_conv)

lemma tasks_fold_delete:
  "tasks (fold (\<lambda>task st. snd (deleteTask (task_id task) st)) ts s) =
     filter (\<lambda>(k, v). k \<notin> task_id ` set ts) (tasks s)"
proof (induction ts arbitrary: s)
  case Nil
  then show ?case by simp
next
  case (Cons a ts)
  let ?s1 = "snd (deleteTask (task_id a) s)"
  have first: "tasks ?s1 = AList.delete (task_id a) (tasks s)"
    by (simp add: deleteTask_def)
  have "tasks (fold (\<lambda>task st. snd (deleteTask (task_id task) st)) (a # ts) s) =
        filter (\<lambda>(k, v). k \<notin> task_id ` set ts) (tasks ?s1)"
    using Cons.IH [of ?s1] by simp
  also have "\<dots> = filter (\<lambda>(k, v). k \<notin> task_id ` set (a # ts)) (tasks s)"
    unfolding first by (auto simp: AList.delete_eq intro!: filter_cong)
  finally show ?case .
qed

lemma currentId_fold_delete:
  "currentId (fold (\<lambda>task st. snd (deleteTask (task_id task) st)) ts s) = currentId s"
  by (induction ts arbitrary: s) (simp_all add: deleteTask_def)

lemma tasks_clearCompletedTasks:
  assumes "wf_store s"
  shows "tasks (snd (clearCompletedTasks s)) = filter (\<lambda>(k, v). \<not> task_completed v) (tasks s)"
proof -
  let ?done = "filter task_completed (Map_values (tasks s))"
  have key: "task_id v = k" if "(k, v) \<in> set (tasks s)" for k v
    using assms that by (auto simp: wf_store_def list_all_iff)
  have dist: "distinct (map fst (tasks s))"
    using assms by (simp add: wf_store_def)
  have "(k \<notin> task_id ` set ?done) = (\<not> task_completed v)" if kv: "(k, v) \<in> set (tasks s)" for k v
  proof
    assume "k \<notin> task_id ` set ?done"
    moreover have "task_completed v \<Longrightarrow> v \<in> set ?done"
      using kv by (force simp: Map_values_def)
    ultimately show "\<not> task_completed v" using key [OF kv] by auto
  next
    assume open_task: "\<not> task_completed v"
    show "k \<notin> task_id ` set ?done"
    proof
      assume "k \<in> task_id ` set ?done"
      then obtain w where w: "w \<in> set ?done" "task_id w = k" by auto
      then obtain k' where k': "(k', w) \<in> set (tasks s)" "task_completed w"
        by (auto simp: Map_values_def)
      with key w have "(k, w) \<in> set (tasks s)" by auto
      with dist kv have "w = v" by (meson eq_key_imp_eq_value)
      with k' open_task show False by simp
    qed
  qed
  then have "filter (\<lambda>(k, v). k \<notin> task_id ` set ?done) (tasks s) =
             filter (\<lambda>(k, v). \<not> task_completed v) (tasks s)"
    by (auto intro!: filter_cong)
  then show ?thesis
    by (simp add: clearCompletedTasks_def Let_def tasks_fold_delete)
qed

lemma currentId_createTask: "currentId (snd (createTask insertTask s)) = currentId s + 1"
  by (simp add: createTask_def Let_def)

lemma currentId_updateTask: "currentId (snd (updateTask i updates s)) = currentId s"
  by (simp add: updateTask_def Let_def split: option.splits)

lemma currentId_deleteTask: "currentId (snd (deleteTask i s)) = currentId s"
  by (simp add: deleteTask_def)

lemma currentId_clearCompletedTasks: "currentId (snd (clearCompletedTasks s)) = currentId s"
  by (simp add: clearCompletedTasks_def Let_def currentId_fold_delete)

text \<open>Every method preserves the invariant, so every store reached from the empty one has it.\<close>

lemma wf_store_createTask:
  assumes wf: "wf_store s"
  shows "wf_store (snd (createTask insertTask s))"
proof (rule wf_storeI)
  let ?s' = "snd (createTask insertTask s)"
  have fresh: "currentId s \<notin> fst ` set (tasks s)"
    using wf_store_fresh [OF wf] by (simp add: map_of_eq_None_iff)
  have new_tasks: "tasks ?s' = tasks s @ [(currentId s, fst (createTask insertTask s))]"
    by (simp add: createTask_def Let_def update_fresh_key [OF fresh])
  have cur: "currentId ?s' = currentId s + 1"
    by (simp add: createTask_def Let_def)
  show "1 \<le> currentId ?s'"
    using wf by (simp add: cur wf_store_def)
  show "distinct (map fst (tasks ?s'))"
    using wf_store_distinct [OF wf] fresh by (simp add: new_tasks)
  fix k t
  assume "(k, t) \<in> set (tasks ?s')"
  then consider "(k, t) \<in> set (tasks s)" | "k = currentId s" "t = fst (createTask insertTask s)"
    by (auto simp: new_tasks)
  then show "task_id t = k \<and> 1 \<le> k \<and> k < currentId ?s'"
  proof cases
    case 1
    with wf_store_keys [OF wf 1] show ?thesis by (simp add: cur)
  next
    case 2
    have "1 \<le> currentId s"
      using wf by (simp add: wf_store_def)
    with 2 show ?thesis by (simp add: cur createTask_def Let_def)
  qed
qed

lemma wf_store_updateTask:
  assumes wf: "wf_store s"
  shows "wf_store (snd (updateTask i updates s))"
proof (cases "map_of (tasks s) i")
  case None
  with wf show ?thesis by (simp add: updateTask_def)
next
  case (Some t)
  let ?u = "t\<lparr>task_text := (case upd_text updates of None \<Rightarrow> task_text t | Some x \<Rightarrow> x),
              task_completed := (case upd_completed updates of None \<Rightarrow> task_completed t | Some c \<Rightarrow> c)\<rparr>"
  have result: "snd (updateTask i updates s) = s\<lparr>tasks := AList.update i ?u (tasks s)\<rparr>"
    by (simp add: updateTask_def Some Let_def)
  from Some have "(i, t) \<in> set (tasks s)" by (rule map_of_SomeD)
  from wf_store_keys [OF wf this] have idt: "task_id ?u = i" "1 \<le> i" "i < currentId s" by auto
  show ?thesis
  proof (rule wf_storeI)
    show "1 \<le> currentId (snd (updateTask i updates s))"
      using wf by (simp add: result wf_store_def)
    show "distinct (map fst (tasks (snd (updateTask i updates s))))"
      using wf_store_distinct [OF wf] by (simp add: result distinct_update)
    fix k v
    assume "(k, v) \<in> set (tasks (snd (updateTask i updates s)))"
    with update_present_key [OF Some, of ?u]
    have "(k, v) = (i, ?u) \<or> (k, v) \<in> set (tasks s)"
      unfolding result by auto
    then show "task_id v = k \<and> 1 \<le> k \<and> k < currentId (snd (updateTask i updates s))"
      using idt wf_store_keys [OF wf] unfolding result by auto
  qed
qed

lemma wf_store_filter:
  assumes wf: "wf_store s"
  shows "wf_store (s\<lparr>tasks := filter P (tasks s)\<rparr>)"
proof (rule wf_storeI)
  show "1 \<le> currentId (s\<lparr>tasks := filter P (tasks s)\<rparr>)"
    using wf by (simp add: wf_store_def)
  show "distinct (map fst (tasks (s\<lparr>tasks := filter P (tasks s)\<rparr>)))"
    using wf_store_distinct [OF wf] by (simp add: distinct_map_filter)
  fix k t
  assume "(k, t) \<in> set (tasks (s\<lparr>tasks := filter P (tasks s)\<rparr>))"
  then have "(k, t) \<in> set (tasks s)" by simp
  from wf_store_keys [OF wf this]
  show "task_id t = k \<and> 1 \<le> k \<and> k < currentId (s\<lparr>tasks := filter P (tasks s)\<rparr>)" by simp
qed

lemma wf_store_deleteTask: "wf_store s \<Longrightarrow> wf_store (snd (deleteTask i s))"
  using wf_store_filter [of s "\<lambda>(k, v). i \<noteq> k"] by (simp add: deleteTask_def AList.delete_eq)

lemma wf_store_clearCompletedTasks:
  assumes wf: "wf_store s"
  shows "wf_store (snd (clearCompletedTasks s))"
proof -
  let ?s' = "snd (clearCompletedTasks s)"
  have "currentId ?s' = currentId s"
    by (simp add: clearCompletedTasks_def Let_def currentId_fold_delete)
  moreover have "tasks ?s' = filter (\<lambda>(k, v). \<not> task_completed v) (tasks s)"
    by (rule tasks_clearCompletedTasks [OF wf])
  ultimately have "?s' = s\<lparr>tasks := filter (\<lambda>(k, v). \<not> task_completed v) (tasks s)\<rparr>"
    by simp
  then show ?thesis using wf_store_filter [OF wf] by simp
qed

lemma wf_store_apply_op: "wf_store s \<Longrightarrow> wf_store (apply_op x s)"
  by (cases x)
    (simp_all add: wf_store_createTask wf_store_updateTask wf_store_deleteTask
      wf_store_clearCompletedTasks)

lemma wf_store_run_ops: "wf_store s \<Longrightarrow> wf_store (run_ops xs s)"
  by (induction xs arbitrary: s) (simp_all add: wf_store_apply_op)

lemma example_store_reachable:
  "example_store =
     run_ops [Create \<lparr>ins_text = js ''a'', ins_completed = Some True\<rparr>,
              Create \<lparr>ins_text = js ''b'', ins_completed = None\<rparr>] MemStorage_new"
  by (simp add: example_store_def MemStorage_new_def createTask_def Let_def)

section \<open>Store operations\<close>

text \<open>
  C10. \<open>list()\<close> is a total function of the store. It returns exactly the tasks that the
  store's entries hold, each as often as it is held, in ascending order of id. In a store
  satisfying the invariant (every store reached from the empty one does) the ids of the
  result are strictly ascending, and a task is listed if and only if the store holds it
  under its id.
\<close>

theorem getTasks_all_sorted:
  "mset (getTasks s) = mset (map snd (tasks s)) \<and>
   sorted (map task_id (getTasks s)) \<and>
   (wf_store s \<longrightarrow>
      sorted_wrt (<) (map task_id (getTasks s)) \<and>
      (\<forall>t. t \<in> set (getTasks s) \<longleftrightarrow> getTask (task_id t) s = Some t))"
proof -
  have all: "mset (getTasks s) = mset (map snd (tasks s))"
    by (simp add: getTasks_def Map_values_def)
  have ascending: "sorted (map task_id (getTasks s))"
    by (simp add: getTasks_def)
  have strict: "sorted_wrt (<) (map task_id (getTasks s))"
    and listed: "\<forall>t. t \<in> set (getTasks s) \<longleftrightarrow> getTask (task_id t) s = Some t"
    if wf: "wf_store s"
  proof -
    have ids: "map task_id (map snd (tasks s)) = map fst (tasks s)"
      using wf_store_keys [OF wf] by auto
    have "distinct (map task_id (map snd (tasks s)))"
      unfolding ids by (rule wf_store_distinct [OF wf])
    moreover have "mset (map task_id (getTasks s)) = mset (map task_id (map snd (tasks s)))"
      by (simp add: getTasks_def Map_values_def multiset.map_comp)
    ultimately have "distinct (map task_id (getTasks s))"
      by (metis mset_eq_imp_distinct_iff)
    with ascending show "sorted_wrt (<) (map task_id (getTasks s))"
      by (simp add: strict_sorted_iff)
    show "\<forall>t. t \<in> set (getTasks s) \<longleftrightarrow> getTask (task_id t) s = Some t"
    proof (intro allI iffI)
      fix t
      assume "t \<in> set (getTasks s)"
      then obtain k where "(k, t) \<in> set (tasks s)"
        by (auto simp: getTasks_def Map_values_def)
      then show "getTask (task_id t) s = Some t"
        unfolding getTask_def by (rule wf_store_lookup [OF wf])
    next
      fix t
      assume "getTask (task_id t) s = Some t"
      then have "(task_id t, t) \<in> set (tasks s)"
        unfolding getTask_def by (rule map_of_SomeD)
      then show "t \<in> set (getTasks s)"
        by (force simp: getTasks_def Map_values_def)
    qed
  qed
  from all ascending strict listed show ?thesis by blast
qed

theorem getTasks_all_sorted_witness:
  "wf_store example_store_rev \<and>
   getTasks example_store_rev =
     [\<lparr>task_id = 1, task_text = js ''a'', task_completed = True\<rparr>,
      \<lparr>task_id = 2, task_text = js ''b'', task_completed = False\<rparr>] \<and>
   mset (getTasks example_store_rev) = mset (map snd (tasks example_store_rev)) \<and>
   sorted_wrt (<) (map task_id (getTasks example_store_rev)) \<and>
   (\<forall>t. t \<in> set (getTasks example_store_rev) \<longleftrightarrow> getTask (task_id t) example_store_rev = Some t)"
proof -
  have wf: "wf_store example_store_rev"
    by (simp add: wf_store_def example_store_rev_def)
  have listed: "getTasks example_store_rev =
     [\<lparr>task_id = 1, task_text = js ''a'', task_completed = True\<rparr>,
      \<lparr>task_id = 2, task_text = js ''b'', task_completed = False\<rparr>]"
    by (simp add: getTasks_def Map_values_def example_store_rev_def)
  from getTasks_all_sorted [of example_store_rev] wf listed show ?thesis
    by blast
qed

text \<open>
  From a store whose counter is \<open>c\<close>, the creates of a run return the ids
  \<open>c, c + 1, \<dots>\<close> in call order, whatever other calls come in between.
\<close>

lemma created_ids_from:
  "map task_id (created xs s) = [currentId s..currentId s + int (length (created xs s)) - 1]"
proof (induction xs arbitrary: s)
  case Nil
  then show ?case by simp
next
  case (Cons x xs)
  show ?case
  proof (cases x)
    case (Create insertTask)
    let ?s1 = "snd (createTask insertTask s)"
    have cur: "currentId ?s1 = currentId s + 1"
      by (simp add: createTask_def Let_def)
    have idt: "task_id (fst (createTask insertTask s)) = currentId s"
      by (simp add: createTask_def Let_def)
    have "[currentId s..currentId s + int (length (created (x # xs) s)) - 1] =
          currentId s # [currentId s + 1..currentId s + int (length (created (x # xs) s)) - 1]"
      by (rule upto_rec1) (simp add: Create)
    also have "\<dots> = currentId s # map task_id (created xs ?s1)"
      using Cons.IH [of ?s1] by (simp add: cur Create add.commute add.left_commute)
    finally show ?thesis by (simp add: Create idt)
  next
    case (Update i updates)
    then show ?thesis using Cons.IH [of "apply_op x s"] by (simp add: currentId_updateTask currentId_deleteTask currentId_clearCompletedTasks)
  next
    case (Delete i)
    then show ?thesis using Cons.IH [of "apply_op x s"] by (simp add: currentId_updateTask currentId_deleteTask currentId_clearCompletedTasks)
  next
    case ClearCompleted
    then show ?thesis using Cons.IH [of "apply_op x s"] by (simp add: currentId_updateTask currentId_deleteTask currentId_clearCompletedTasks)
  qed
qed

text \<open>
  C5. Starting from the empty store, the \<open>create\<close> calls of any run of store calls (updates,
  deletes and clear-completed in between included) return the ids \<open>1, 2, \<dots>, n\<close> in call
  order: strictly increasing from 1, none used twice. In the store reached by any such
  run, \<open>create\<close> returns the record made of the next id, the given text and the given
  completed flag (false when omitted); that id was not in use before the call, and after
  the call the store holds the returned record under it.
\<close>

theorem createTask_sequential_ids:
  "map task_id (created xs MemStorage_new) = [1..int (length (created xs MemStorage_new))] \<and>
   (let s = run_ops xs MemStorage_new; r = createTask insertTask s in
      fst r = \<lparr>task_id = currentId s, task_text = ins_text insertTask,
               task_completed = (case ins_completed insertTask of None \<Rightarrow> False | Some b \<Rightarrow> b)\<rparr> \<and>
      getTask (task_id (fst r)) s = None \<and>
      getTask (task_id (fst r)) (snd r) = Some (fst r) \<and>
      currentId (snd r) = currentId s + 1)"
proof -
  have ids: "map task_id (created xs MemStorage_new) = [1..int (length (created xs MemStorage_new))]"
    using created_ids_from [of xs MemStorage_new] by (simp add: MemStorage_new_def)
  let ?s = "run_ops xs MemStorage_new"
  have wf: "wf_store ?s"
    by (rule wf_store_run_ops) (rule wf_store_new)
  have unused: "getTask (currentId ?s) ?s = None"
    using wf_store_fresh [OF wf] by (simp add: getTask_def)
  have stored: "getTask (currentId ?s) (snd (createTask insertTask ?s)) = Some (fst (createTask insertTask ?s))"
    by (simp add: getTask_def createTask_def Let_def update_conv)
  from ids unused stored show ?thesis
    by (simp add: Let_def) (simp add: createTask_def Let_def)
qed

theorem createTask_sequential_ids_witness:
  "map task_id
     (created [Create \<lparr>ins_text = js ''a'', ins_completed = None\<rparr>, Delete 1,
               Create \<lparr>ins_text = js ''b'', ins_completed = None\<rparr>] MemStorage_new) = [1, 2]"
  using createTask_sequential_ids
    [of "[Create \<lparr>ins_text = js ''a'', ins_completed = None\<rparr>, Delete 1,
          Create \<lparr>ins_text = js ''b'', ins_completed = None\<rparr>]"]
  by (simp add: upto_rec1)

text \<open>
  C6. \<open>update\<close> on an id absent from the store returns the "not found" signal
  (\<^verbatim>\<open>undefined\<close>, here \<open>None\<close>) and the store after the call is the store before it.
\<close>

theorem updateTask_absent:
  "getTask i s = None \<Longrightarrow> updateTask i updates s = (None, s)"
  by (simp add: getTask_def updateTask_def)

theorem updateTask_absent_witness:
  "getTask 7 MemStorage_new = None \<and>
   updateTask 7 \<lparr>upd_text = None, upd_completed = Some True\<rparr> MemStorage_new = (None, MemStorage_new)"
  using updateTask_absent [of 7 MemStorage_new "\<lparr>upd_text = None, upd_completed = Some True\<rparr>"]
  by (simp add: getTask_def MemStorage_new_def)

text \<open>
  C7. In a store satisfying the invariant (every store reached from the empty one does),
  \<open>clearCompleted\<close> returns the number \<open>K\<close> of completed tasks; the tasks left in the store
  are exactly the tasks that were not completed, unchanged and in their order, so a
  following \<open>list()\<close> yields these \<open>N - K\<close> tasks; the counter is untouched.
\<close>

theorem clearCompletedTasks_exact:
  "wf_store s \<Longrightarrow>
     fst (clearCompletedTasks s) = length (filter task_completed (getTasks s)) \<and>
     Map_values (tasks (snd (clearCompletedTasks s))) =
       filter (\<lambda>t. \<not> task_completed t) (Map_values (tasks s)) \<and>
     getTasks (snd (clearCompletedTasks s)) = filter (\<lambda>t. \<not> task_completed t) (getTasks s) \<and>
     length (getTasks (snd (clearCompletedTasks s))) =
       length (getTasks s) - fst (clearCompletedTasks s) \<and>
     currentId (snd (clearCompletedTasks s)) = currentId s"
proof -
  assume wf: "wf_store s"
  let ?s' = "snd (clearCompletedTasks s)"
  have count: "fst (clearCompletedTasks s) = length (filter task_completed (getTasks s))"
    by (simp add: clearCompletedTasks_def Let_def getTasks_def filter_sort)
  have vals: "Map_values (tasks ?s') = filter (\<lambda>t. \<not> task_completed t) (Map_values (tasks s))"
    by (simp add: tasks_clearCompletedTasks [OF wf] Map_values_filter)
  have listed: "getTasks ?s' = filter (\<lambda>t. \<not> task_completed t) (getTasks s)"
    by (simp add: getTasks_def vals filter_sort)
  have "length (filter task_completed (getTasks s)) + length (filter (\<lambda>t. \<not> task_completed t) (getTasks s))
        = length (getTasks s)"
    by (rule sum_length_filter_compl)
  with count listed have remaining: "length (getTasks ?s') = length (getTasks s) - fst (clearCompletedTasks s)"
    by simp
  have cur: "currentId ?s' = currentId s"
    by (simp add: clearCompletedTasks_def Let_def currentId_fold_delete)
  from count vals listed remaining cur show ?thesis by blast
qed

theorem clearCompletedTasks_exact_witness:
  "wf_store example_store \<and>
   fst (clearCompletedTasks example_store) = 1 \<and>
   getTasks (snd (clearCompletedTasks example_store)) =
     [\<lparr>task_id = 2, task_text = js ''b'', task_completed = False\<rparr>]"
proof -
  have wf: "wf_store example_store"
    by (simp add: wf_store_def example_store_def)
  have listed: "getTasks example_store =
      [\<lparr>task_id = 1, task_text = js ''a'', task_completed = True\<rparr>,
       \<lparr>task_id = 2, task_text = js ''b'', task_completed = False\<rparr>]"
    by (simp add: getTasks_def Map_values_def example_store_def)
  from clearCompletedTasks_exact [OF wf] wf show ?thesis
    by (simp add: listed)
qed

text \<open>
  C8. \<open>update\<close> of an existing task returns the task with its id unchanged and with each of
  \<open>text\<close> and \<open>completed\<close> taken from the partial when present there and kept otherwise.
  The store holds the returned record under the id; every other id maps to what it
  mapped to before, the order of the keys and the counter are unchanged.
\<close>

theorem updateTask_frame:
  "getTask i s = Some t \<Longrightarrow>
     fst (updateTask i updates s) =
       Some \<lparr>task_id = task_id t,
             task_text = (case upd_text updates of None \<Rightarrow> task_text t | Some x \<Rightarrow> x),
             task_completed = (case upd_completed updates of None \<Rightarrow> task_completed t | Some c \<Rightarrow> c)\<rparr> \<and>
     getTask i (snd (updateTask i updates s)) = fst (updateTask i updates s) \<and>
     (\<forall>j. j \<noteq> i \<longrightarrow> getTask j (snd (updateTask i updates s)) = getTask j s) \<and>
     map fst (tasks (snd (updateTask i updates s))) = map fst (tasks s) \<and>
     currentId (snd (updateTask i updates s)) = currentId s"
proof -
  assume "getTask i s = Some t"
  then have present: "map_of (tasks s) i = Some t"
    by (simp add: getTask_def)
  then have key: "i \<in> fst ` set (tasks s)"
    by (metis domI dom_map_of_conv_image_fst)
  have merged: "fst (updateTask i updates s) =
       Some \<lparr>task_id = task_id t,
             task_text = (case upd_text updates of None \<Rightarrow> task_text t | Some x \<Rightarrow> x),
             task_completed = (case upd_completed updates of None \<Rightarrow> task_completed t | Some c \<Rightarrow> c)\<rparr>"
    using present by (cases t) (simp add: updateTask_def Let_def split: option.splits)
  have stored: "getTask i (snd (updateTask i updates s)) = fst (updateTask i updates s)"
    by (simp add: updateTask_def present Let_def getTask_def update_conv)
  have others: "\<forall>j. j \<noteq> i \<longrightarrow> getTask j (snd (updateTask i updates s)) = getTask j s"
    by (simp add: updateTask_def present Let_def getTask_def update_conv)
  have order: "map fst (tasks (snd (updateTask i updates s))) = map fst (tasks s)"
    using key by (simp add: updateTask_def present Let_def update_keys)
  have cur: "currentId (snd (updateTask i updates s)) = currentId s"
    by (simp add: updateTask_def present Let_def)
  from merged stored others order cur show ?thesis by blast
qed

theorem updateTask_frame_witness:
  "getTask 2 example_store = Some \<lparr>task_id = 2, task_text = js ''b'', task_completed = False\<rparr> \<and>
   updateTask 2 \<lparr>upd_text = None, upd_completed = Some True\<rparr> example_store =
     (Some \<lparr>task_id = 2, task_text = js ''b'', task_completed = True\<rparr>,
      \<lparr>tasks = [(1, \<lparr>task_id = 1, task_text = js ''a'', task_completed = True\<rparr>),
                (2, \<lparr>task_id = 2, task_text = js ''b'', task_completed = True\<rparr>)],
       currentId = 3\<rparr>)"
  using updateTask_frame [of 2 example_store
      "\<lparr>task_id = 2, task_text = js ''b'', task_completed = False\<rparr>"
      "\<lparr>upd_text = None, upd_completed = Some True\<rparr>"]
  by (simp add: example_store_def getTask_def updateTask_def Let_def)

text \<open>
  C9. \<open>delete\<close> of an id present in the store returns true and the record is gone afterwards
  (every other record is still there); deleting the same id again at once returns false and
  changes nothing.
\<close>

theorem deleteTask_twice:
  "getTask i s = Some t \<Longrightarrow>
     fst (deleteTask i s) = True \<and>
     getTask i (snd (deleteTask i s)) = None \<and>
     (\<forall>j. j \<noteq> i \<longrightarrow> getTask j (snd (deleteTask i s)) = getTask j s) \<and>
     deleteTask i (snd (deleteTask i s)) = (False, snd (deleteTask i s))"
proof -
  assume present: "getTask i s = Some t"
  have first: "fst (deleteTask i s) = True"
    using present by (simp add: deleteTask_def getTask_def)
  have gone: "getTask i (snd (deleteTask i s)) = None"
    by (simp add: getTask_deleteTask)
  have others: "\<forall>j. j \<noteq> i \<longrightarrow> getTask j (snd (deleteTask i s)) = getTask j s"
    by (simp add: getTask_deleteTask)
  have "AList.delete i (AList.delete i (tasks s)) = AList.delete i (tasks s)"
    by (simp add: delete_idem)
  then have second: "deleteTask i (snd (deleteTask i s)) = (False, snd (deleteTask i s))"
    by (simp add: deleteTask_def delete_conv)
  from first gone others second show ?thesis by blast
qed

theorem deleteTask_twice_witness:
  "getTask 1 example_store = Some \<lparr>task_id = 1, task_text = js ''a'', task_completed = True\<rparr> \<and>
   fst (deleteTask 1 example_store) = True \<and>
   getTask 1 (snd (deleteTask 1 example_store)) = None \<and>
   deleteTask 1 (snd (deleteTask 1 example_store)) = (False, snd (deleteTask 1 example_store))"
  using deleteTask_twice [of 1 example_store
      "\<lparr>task_id = 1, task_text = js ''a'', task_completed = True\<rparr>"]
  by (simp add: example_store_def getTask_def)

section \<open>The handlers taken alone\<close>

text \<open>
  What the two bulk handlers do when they are run: toggle-all answers 200 with every task,
  in ascending order of id, its completed flag set to the negation of "all tasks are
  completed", and stores exactly that; clear-completed answers 200 with the count returned
  by the store.
\<close>

lemma toggle_loop_effect:
  assumes "wf_store s"
    and "distinct (map task_id ts)"
    and "\<And>t. t \<in> set ts \<Longrightarrow> map_of (tasks s) (task_id t) = Some t"
  shows "toggle_loop ts b acc s =
     (acc @ map (\<lambda>t. t\<lparr>task_completed := b\<rparr>) ts,
      s\<lparr>tasks := map (\<lambda>(k, t). if k \<in> task_id ` set ts then (k, t\<lparr>task_completed := b\<rparr>) else (k, t))
                    (tasks s)\<rparr>)"
  using assms
proof (induction ts arbitrary: acc s)
  case Nil
  then show ?case by (simp add: case_prod_unfold)
next
  case (Cons a ts)
  let ?k = "task_id a"
  let ?a' = "a\<lparr>task_completed := b\<rparr>"
  let ?s1 = "s\<lparr>tasks := AList.update ?k ?a' (tasks s)\<rparr>"
  have present: "map_of (tasks s) ?k = Some a"
    using Cons.prems(3) by simp
  have step: "updateTask ?k \<lparr>upd_text = None, upd_completed = Some b\<rparr> s = (Some ?a', ?s1)"
    by (simp add: updateTask_def present Let_def)
  have s1: "?s1 = snd (updateTask ?k \<lparr>upd_text = None, upd_completed = Some b\<rparr> s)"
    by (simp add: step)
  have wf1: "wf_store ?s1"
    unfolding s1 by (rule wf_store_updateTask [OF Cons.prems(1)])
  have dist: "distinct (map task_id ts)" and fresh: "?k \<notin> task_id ` set ts"
    using Cons.prems(2) by auto
  have lookup1: "map_of (tasks ?s1) (task_id t) = Some t" if "t \<in> set ts" for t
  proof -
    from that fresh have "task_id t \<noteq> ?k" by (metis image_eqI)
    moreover have "map_of (tasks s) (task_id t) = Some t"
      using Cons.prems(3) that by simp
    ultimately show ?thesis by (simp add: update_conv)
  qed
  have tasks1: "tasks ?s1 = map (\<lambda>(k', t). if k' = ?k then (k', ?a') else (k', t)) (tasks s)"
    using update_distinct_map [OF wf_store_distinct [OF Cons.prems(1)] present] by simp
  have entry: "t = a" if "(?k, t) \<in> set (tasks s)" for t
    using that present wf_store_distinct [OF Cons.prems(1)] by simp
  have pointwise:
    "(case (case e of (k', t) \<Rightarrow> if k' = ?k then (k', ?a') else (k', t)) of
        (k, t) \<Rightarrow> if k \<in> task_id ` set ts then (k, t\<lparr>task_completed := b\<rparr>) else (k, t)) =
     (case e of (k, t) \<Rightarrow> if k \<in> task_id ` set (a # ts) then (k, t\<lparr>task_completed := b\<rparr>) else (k, t))"
    if e: "e \<in> set (tasks s)" for e
  proof (cases e)
    case (Pair k t)
    show ?thesis
    proof (cases "k = ?k")
      case True
      with Pair e have "t = a" using entry by simp
      with True Pair fresh show ?thesis by simp
    next
      case False
      with Pair show ?thesis by simp
    qed
  qed
  have compose:
    "map (\<lambda>(k, t). if k \<in> task_id ` set ts then (k, t\<lparr>task_completed := b\<rparr>) else (k, t)) (tasks ?s1) =
     map (\<lambda>(k, t). if k \<in> task_id ` set (a # ts) then (k, t\<lparr>task_completed := b\<rparr>) else (k, t)) (tasks s)"
    unfolding tasks1 map_map comp_def by (rule map_cong [OF refl]) (rule pointwise)
  have "toggle_loop (a # ts) b acc s = toggle_loop ts b (acc @ [?a']) ?s1"
    by (simp add: step)
  also have "\<dots> = ((acc @ [?a']) @ map (\<lambda>t. t\<lparr>task_completed := b\<rparr>) ts,
      ?s1\<lparr>tasks := map (\<lambda>(k, t). if k \<in> task_id ` set ts then (k, t\<lparr>task_completed := b\<rparr>) else (k, t))
                    (tasks ?s1)\<rparr>)"
    by (rule Cons.IH [OF wf1 dist lookup1])
  finally show ?case
    unfolding compose by simp
qed

lemma put_toggle_all_effect:
  assumes wf: "wf_store s"
  shows "put_toggle_all params reqBody s =
     (\<lparr>status = 200,
       body = Json_tasks (map (\<lambda>t. t\<lparr>task_completed := \<not> list_all task_completed (getTasks s)\<rparr>)
                (getTasks s))\<rparr>,
      s\<lparr>tasks := map (\<lambda>(k, t). (k, t\<lparr>task_completed := \<not> list_all task_completed (getTasks s)\<rparr>))
                    (tasks s)\<rparr>)"
proof -
  let ?b = "\<not> list_all task_completed (getTasks s)"
  have ids: "map task_id (Map_values (tasks s)) = map fst (tasks s)"
    using wf_store_keys [OF wf] by (auto simp: Map_values_def)
  have "distinct (map task_id (Map_values (tasks s)))"
    unfolding ids by (rule wf_store_distinct [OF wf])
  then have dist: "distinct (map task_id (getTasks s))"
    by (simp add: getTasks_def distinct_map)
  have lookup: "map_of (tasks s) (task_id t) = Some t" if "t \<in> set (getTasks s)" for t
  proof -
    from that obtain k where "(k, t) \<in> set (tasks s)"
      by (auto simp: getTasks_def Map_values_def)
    then show ?thesis by (rule wf_store_lookup [OF wf])
  qed
  have all_keys: "k \<in> task_id ` set (getTasks s)" if "(k, t) \<in> set (tasks s)" for k t
  proof -
    have "t \<in> set (getTasks s)"
      using that by (force simp: getTasks_def Map_values_def)
    with wf_store_keys [OF wf that] show ?thesis by auto
  qed
  have "map (\<lambda>(k, t). if k \<in> task_id ` set (getTasks s) then (k, t\<lparr>task_completed := ?b\<rparr>) else (k, t))
          (tasks s) =
        map (\<lambda>(k, t). (k, t\<lparr>task_completed := ?b\<rparr>)) (tasks s)"
    using all_keys by (auto simp: case_prod_unfold)
  with toggle_loop_effect [OF wf dist lookup, of ?b "[]"]
  show ?thesis by (simp add: put_toggle_all_def Let_def)
qed

lemma delete_completed_effect:
  "delete_completed params reqBody s =
     (\<lparr>status = 200, body = Json_deletedCount (fst (clearCompletedTasks s))\<rparr>,
      snd (clearCompletedTasks s))"
  by (simp add: delete_completed_def split: prod.splits)

text \<open>
  Every handler preserves the store invariant, so every store reached by serving requests
  from the empty store has it.
\<close>

lemma wf_store_toggle_loop:
  "wf_store s \<Longrightarrow> wf_store (snd (toggle_loop ts b acc s))"
proof (induction ts arbitrary: acc s)
  case Nil
  then show ?case by simp
next
  case (Cons a ts)
  let ?r = "updateTask (task_id a) \<lparr>upd_text = None, upd_completed = Some b\<rparr> s"
  have "wf_store (snd ?r)"
    by (rule wf_store_updateTask [OF Cons.prems])
  then show ?case
    using Cons.IH [of "snd ?r"] by (cases ?r) (auto split: option.splits)
qed

lemma wf_store_handlers:
  assumes wf: "wf_store s"
  shows "wf_store (snd (get_tasks ps b s))"
    and "wf_store (snd (post_tasks ps b s))"
    and "wf_store (snd (put_task ps b s))"
    and "wf_store (snd (delete_task ps b s))"
    and "wf_store (snd (delete_completed ps b s))"
    and "wf_store (snd (put_toggle_all ps b s))"
proof -
  have upd: "wf_store (snd (updateTask_at n u s))" for n u
    using wf wf_store_updateTask [OF wf] by (simp add: updateTask_at_def split: number.splits)
  have del: "wf_store (snd (deleteTask_at n s))" for n
    using wf wf_store_deleteTask [OF wf] by (simp add: deleteTask_at_def split: number.splits)
  show "wf_store (snd (get_tasks ps b s))"
    using wf by (simp add: get_tasks_def)
  show "wf_store (snd (post_tasks ps b s))"
    using wf wf_store_createTask [OF wf]
    by (auto simp: post_tasks_def split: sum.splits prod.splits) (metis snd_conv)
  show "wf_store (snd (put_task ps b s))"
    using wf upd
    by (auto simp: put_task_def Let_def split: sum.splits prod.splits option.splits)
      (metis snd_conv)+
  show "wf_store (snd (delete_task ps b s))"
    using wf del
    by (auto simp: delete_task_def Let_def split: prod.splits option.splits bool.splits)
      (metis snd_conv)+
  show "wf_store (snd (delete_completed ps b s))"
    using wf_store_clearCompletedTasks [OF wf] by (simp add: delete_completed_effect)
  show "wf_store (snd (put_toggle_all ps b s))"
    using wf_store_toggle_loop [OF wf]
    by (auto simp: put_toggle_all_def Let_def split: prod.splits) (metis snd_conv)
qed

lemma wf_store_dispatch:
  assumes "wf_store s"
    and "\<And>m pattern h ps b. (m, pattern, h) \<in> set rs \<Longrightarrow> wf_store (snd (h ps b s))"
    and "dispatch rs req s = Some (res, s')"
  shows "wf_store s'"
  using assms
proof (induction rs)
  case Nil
  then show ?case by simp
next
  case (Cons r rs)
  obtain m pattern h where r: "r = (m, pattern, h)" by (cases r)
  have rest: "wf_store (snd (h' ps b s))" if "(m', pattern', h') \<in> set rs" for m' pattern' h' ps b
    using Cons.prems(2) [of m' pattern' h' ps b] that by simp
  have later: "wf_store s'" if "dispatch rs req s = Some (res, s')"
    using Cons.IH [OF Cons.prems(1) _ that] rest by blast
  show ?case
  proof (cases "match_path pattern (req_path req)")
    case No_match
    with Cons.prems(3) r later show ?thesis by simp
  next
    case Decode_error
    with Cons.prems r show ?thesis by simp
  next
    case (Matched ps)
    show ?thesis
    proof (cases "m = req_method req")
      case True
      with Cons.prems(3) r Matched have "s' = snd (h ps (req_body req) s)" by simp
      with Cons.prems(2) [of m pattern h ps "req_body req"] r show ?thesis by simp
    next
      case False
      with Cons.prems(3) r Matched later show ?thesis by simp
    qed
  qed
qed

lemma wf_store_handle:
  assumes wf: "wf_store s" and handled: "handle req s = Some (res, s')"
  shows "wf_store s'"
proof (rule wf_store_dispatch [OF wf _ handled [unfolded handle_def]])
  fix m pattern h ps b
  assume "(m, pattern, h) \<in> set routes"
  then show "wf_store (snd (h ps b s))"
    using wf_store_handlers [OF wf] by (auto simp: routes_def)
qed

lemma wf_store_serve: "wf_store s \<Longrightarrow> wf_store (snd (serve reqs s))"
proof (induction reqs arbitrary: s)
  case Nil
  then show ?case by simp
next
  case (Cons req reqs)
  show ?case
  proof (cases "handle req s")
    case None
    with Cons.IH [OF Cons.prems] show ?thesis by (cases "serve reqs s") simp
  next
    case (Some r)
    obtain res s1 where r: "r = (res, s1)" by (cases r)
    with Some Cons.prems have "wf_store s1" by (auto dest: wf_store_handle)
    from Cons.IH [OF this] Some r show ?thesis by (cases "serve reqs s1") simp
  qed
qed

text \<open>The insert schema accepts only a text of 1 to 500 code units.\<close>

lemma insertTaskSchema_text:
  "insertTaskSchema data = Inr v \<Longrightarrow> 1 \<le> length (ins_text v) \<and> length (ins_text v) \<le> 500"
  by (auto simp: insertTaskSchema_def Suc_le_eq split: json.splits option.splits if_splits sum.splits)

section \<open>Parsing and decoding the id parameter\<close>

text \<open>
  \<open>parseInt\<close> on some parameters; beyond \<open>2^53\<close> the value is the nearest double.
\<close>

lemma parseInt_examples:
  "parseInt (js ''42'') = Num 42"
  "parseInt (js '' -7'') = Num (- 7)"
  "parseInt (js ''+3'') = Num 3"
  "parseInt (js ''0x1F'') = Num 31"
  "parseInt (js ''0x2'') = Num 2"
  "parseInt (js ''1.5'') = Num 1"
  "parseInt (js ''1e3'') = Num 1"
  "parseInt (js ''2abc'') = Num 2"
  "parseInt (js ''abc'') = NaN"
  "parseInt (js ''-'') = NaN"
  "parseInt (js ''0x'') = NaN"
  "parseInt (js ''0xg'') = NaN"
  "parseInt (js ''-0x'') = NaN"
  "parseInt (js '''') = NaN"
  "parseInt (js ''toggle-all'') = NaN"
  "parseInt (js ''completed'') = NaN"
  "parseInt (js ''9007199254740993'') = Num 9007199254740992"
  "parseInt (js ''9007199254740995'') = Num 9007199254740996"
  by (simp_all add: parseInt_eval)

lemma decodeURIComponent_examples:
  "decodeURIComponent (js ''2'') = Some (js ''2'')"
  "decodeURIComponent (js ''%32'') = Some (js ''2'')"
  "decodeURIComponent (js ''%20abc'') = Some (js '' abc'')"
  "decodeURIComponent (js ''%e2%82%ac'') = Some [0x20AC]"
  "decodeURIComponent (js ''%F0%9F%98%80'') = Some [0xD83D, 0xDE00]"
  "decodeURIComponent (js ''%'') = None"
  "decodeURIComponent (js ''%zz'') = None"
  "decodeURIComponent (js ''%80'') = None"
  "decodeURIComponent (js ''%C0%80'') = None"
  "decodeURIComponent (js ''%ED%A0%80'') = None"
  by (simp_all add: decode_eval)

text \<open>A string without \<^verbatim>\<open>%\<close> decodes to itself.\<close>

lemma decodeURIComponent_plain: "0x25 \<notin> set x \<Longrightarrow> decodeURIComponent x = Some x"
  by (induction x) auto

text \<open>
  The digits of radix 10 and 16, and the characterisation of the parameters in which
  \<open>parseInt\<close> finds no number.
\<close>

lemma isDigit_10: "isDigit 10 c \<longleftrightarrow> isDecimalDigit c"
  by (auto simp: isDigit_def digitValue_def isDecimalDigit_def word_le_nat_alt)

lemma isDigit_16: "isDigit 16 c \<longleftrightarrow> isHexDigit c"
  by (auto simp: isDigit_def digitValue_def isHexDigit_def word_le_nat_alt)

lemma parseInt_NaN_iff: "parseInt p = NaN \<longleftrightarrow> no_leading_number p"
proof -
  let ?S = "dropWhile isWhiteSpace p"
  let ?S1 = "case ?S of c # rest \<Rightarrow> if c = 0x2B \<or> c = 0x2D then rest else ?S | [] \<Rightarrow> ?S"
  let ?hex = "case ?S1 of a # b # _ \<Rightarrow> a = 0x30 \<and> (b = 0x78 \<or> b = 0x58) | _ \<Rightarrow> False"
  let ?Z = "takeWhile (isDigit (if ?hex then 16 else 10)) (if ?hex then drop 2 ?S1 else ?S1)"
  have "(case xs of [] \<Rightarrow> [] | c # rest \<Rightarrow> if c = 0x2B \<or> c = 0x2D then rest else c # rest) =
        (case xs of c # rest \<Rightarrow> if c = 0x2B \<or> c = 0x2D then rest else xs | [] \<Rightarrow> xs)"
    for xs :: jsstring
    by (cases xs) simp_all
  then have after: "afterSign p = ?S1"
    unfolding afterSign_def .
  have "parseInt p = NaN \<longleftrightarrow> ?Z = []"
    by (simp add: parseInt_def Let_def split: option.splits)
  also have "\<dots> \<longleftrightarrow> no_leading_number p"
    unfolding no_leading_number_def after
    by (cases ?S1 rule: remdups_adj.cases) (auto simp: isDigit_10 isDigit_16 split: list.splits)
  finally show ?thesis .
qed

text \<open>A parameter that is an integer in the specification's sense is never \<open>NaN\<close>.\<close>

lemma parseInt_integer_param: "integer_param p \<Longrightarrow> parseInt p \<noteq> NaN"
proof -
  assume ip: "integer_param p"
  have ws: "isDecimalDigit c \<Longrightarrow> \<not> isWhiteSpace c" for c
    by (auto simp: isDecimalDigit_def isWhiteSpace_def word_le_nat_alt)
  have notx: "isDecimalDigit c \<Longrightarrow> c \<noteq> 0x78 \<and> c \<noteq> 0x58 \<and> c \<noteq> 0x2B \<and> c \<noteq> 0x2D" for c
    by (auto simp: isDecimalDigit_def)
  have digits: "\<not> (case ds of
        [] \<Rightarrow> True
      | [a] \<Rightarrow> \<not> isDecimalDigit a
      | a # b # rest \<Rightarrow>
          if a = 0x30 \<and> (b = 0x78 \<or> b = 0x58)
          then (case rest of [] \<Rightarrow> True | h # _ \<Rightarrow> \<not> isHexDigit h)
          else \<not> isDecimalDigit a)"
    if "ds \<noteq> []" "list_all isDecimalDigit ds" for ds
    using that notx [of "hd (tl ds)"] by (cases ds) (auto split: list.splits)
  from ip obtain c ds where p: "p = c # ds" by (cases p) (auto simp: integer_param_def)
  have "\<not> no_leading_number p"
  proof (cases "c = 0x2D")
    case True
    with ip p have ds: "ds \<noteq> []" "list_all isDecimalDigit ds"
      by (auto simp: integer_param_def)
    have "\<not> isWhiteSpace c" using True by (simp add: isWhiteSpace_def)
    with True p have "afterSign p = ds" by (simp add: afterSign_def)
    with digits [OF ds] show ?thesis by (simp add: no_leading_number_def)
  next
    case False
    with ip p have ds: "list_all isDecimalDigit (c # ds)"
      by (auto simp: integer_param_def)
    then have "\<not> isWhiteSpace c" "c \<noteq> 0x2B" using ws notx by auto
    with False p have "afterSign p = c # ds" by (simp add: afterSign_def)
    with digits [OF _ ds] show ?thesis by (simp add: no_leading_number_def)
  qed
  then show ?thesis by (simp add: parseInt_NaN_iff)
qed

section \<open>The API as routed\<close>

text \<open>
  Routing on some requests: a trailing slash is accepted, the id parameter is decoded
  before the handler reads it, a parameter that does not decode is answered 400 without
  running a handler, and an id beyond \<open>2^53\<close> is looked up as the nearest double.
\<close>

lemma routing_examples:
  "handle \<lparr>req_method = GET, req_path = [js ''api'', js ''tasks'', []], req_body = JObject []\<rparr>
     example_store =
     Some (\<lparr>status = 200, body = Json_tasks (getTasks example_store)\<rparr>, example_store)"
  "handle \<lparr>req_method = DELETE, req_path = [js ''API'', js ''Tasks'', js ''%32'', []],
           req_body = JObject []\<rparr> example_store =
     Some (\<lparr>status = 204, body = Empty\<rparr>,
           \<lparr>tasks = [(1, \<lparr>task_id = 1, task_text = js ''a'', task_completed = True\<rparr>)],
            currentId = 3\<rparr>)"
  "handle \<lparr>req_method = DELETE, req_path = [js ''api'', js ''tasks'', js ''0x2''],
           req_body = JObject []\<rparr> example_store =
     Some (\<lparr>status = 204, body = Empty\<rparr>,
           \<lparr>tasks = [(1, \<lparr>task_id = 1, task_text = js ''a'', task_completed = True\<rparr>)],
            currentId = 3\<rparr>)"
  "handle \<lparr>req_method = GET, req_path = [js ''api'', js ''tasks'', js ''%zz''],
           req_body = JObject []\<rparr> example_store =
     Some (\<lparr>status = 400, body = Failed_to_decode_param\<rparr>, example_store)"
  "handle \<lparr>req_method = DELETE, req_path = [js ''api'', js ''tasks'', js ''9007199254740993''],
           req_body = JObject []\<rparr> example_store =
     Some (\<lparr>status = 404, body = Json_message (Text ''Task not found'')\<rparr>, example_store)"
  "handle \<lparr>req_method = PUT, req_path = [js ''api'', js ''tasks'', []], req_body = JObject []\<rparr>
     example_store = None"
  "handle \<lparr>req_method = GET, req_path = [js ''api'', js ''tasks'', js ''1''], req_body = JObject []\<rparr>
     example_store = None"
  by (simp_all add: routing_eval get_tasks_def delete_task_def deleteTask_at_def deleteTask_def
      parseInt_eval example_store_def)

text \<open>
  C1. The claim says that \<^verbatim>\<open>PUT /api/tasks/toggle-all\<close> answers 200 with all tasks
  toggled. As routed it does not: the route \<^verbatim>\<open>PUT /api/tasks/:id\<close> is registered before
  the toggle-all route and matches the path with \<open>id = "toggle-all"\<close>; \<open>parseInt\<close> of that is
  \<open>NaN\<close>, so for every store and every body the answer is 400 "Invalid task ID" and the
  store is unchanged. The toggle-all handler is never run.
\<close>

theorem toggle_all_route_shadowed:
  "handle \<lparr>req_method = PUT, req_path = [js ''api'', js ''tasks'', js ''toggle-all''],
           req_body = reqBody\<rparr> s =
     Some (\<lparr>status = 400, body = Json_message (Text ''Invalid task ID'')\<rparr>, s)"
  by (simp add: routing_eval put_task_def parseInt_eval)

text \<open>
  C2. The claim says that \<^verbatim>\<open>DELETE /api/tasks/completed\<close> answers 200 with the number of
  completed tasks and removes them. As routed it does not: the route
  \<^verbatim>\<open>DELETE /api/tasks/:id\<close> is registered before it and matches the path with
  \<open>id = "completed"\<close>, so for every store the answer is 400 "Invalid task ID" and nothing is
  removed.
\<close>

theorem clear_completed_route_shadowed:
  "handle \<lparr>req_method = DELETE, req_path = [js ''api'', js ''tasks'', js ''completed''],
           req_body = reqBody\<rparr> s =
     Some (\<lparr>status = 400, body = Json_message (Text ''Invalid task ID'')\<rparr>, s)"
  by (simp add: routing_eval delete_task_def parseInt_eval)

text \<open>
  C3. The claim says that no task with empty text is ever stored by a validated request.
  The update schema has no length bound: after \<^verbatim>\<open>POST /api/tasks {"text": "a"}\<close> the
  request \<^verbatim>\<open>PUT /api/tasks/1 {"text": ""}\<close> passes validation, answers 200, and the store
  holds task 1 with the empty text.
\<close>

theorem update_stores_empty_text:
  "serve [\<lparr>req_method = POST, req_path = [js ''api'', js ''tasks''],
           req_body = JObject [(js ''text'', JString (js ''a''))]\<rparr>,
          \<lparr>req_method = PUT, req_path = [js ''api'', js ''tasks'', js ''1''],
           req_body = JObject [(js ''text'', JString [])]\<rparr>] MemStorage_new =
     ([Some \<lparr>status = 201,
             body = Json_task \<lparr>task_id = 1, task_text = js ''a'', task_completed = False\<rparr>\<rparr>,
       Some \<lparr>status = 200,
             body = Json_task \<lparr>task_id = 1, task_text = [], task_completed = False\<rparr>\<rparr>],
      \<lparr>tasks = [(1, \<lparr>task_id = 1, task_text = [], task_completed = False\<rparr>)], currentId = 2\<rparr>)"
  by (simp add: routing_eval post_tasks_def put_task_def parseInt_eval insertTaskSchema_def
      updateTaskSchema_def createTask_def updateTask_at_def updateTask_def MemStorage_new_def)

text \<open>
  C4, as stated, fails: the parameter \<open>"2abc"\<close> is not an integer, yet \<open>parseInt\<close> reads
  its leading digits, so \<^verbatim>\<open>PUT /api/tasks/2abc\<close> updates task 2 with status 200 and
  \<^verbatim>\<open>DELETE /api/tasks/2abc\<close> removes task 2 with status 204.
\<close>

theorem non_integer_id_accepted:
  "\<not> integer_param (js ''2abc'') \<and>
   handle \<lparr>req_method = PUT, req_path = [js ''api'', js ''tasks'', js ''2abc''],
           req_body = JObject [(js ''completed'', JBool True)]\<rparr> example_store =
     Some (\<lparr>status = 200,
            body = Json_task \<lparr>task_id = 2, task_text = js ''b'', task_completed = True\<rparr>\<rparr>,
           \<lparr>tasks = [(1, \<lparr>task_id = 1, task_text = js ''a'', task_completed = True\<rparr>),
                     (2, \<lparr>task_id = 2, task_text = js ''b'', task_completed = True\<rparr>)],
            currentId = 3\<rparr>) \<and>
   handle \<lparr>req_method = DELETE, req_path = [js ''api'', js ''tasks'', js ''2abc''],
           req_body = JObject []\<rparr> example_store =
     Some (\<lparr>status = 204, body = Empty\<rparr>,
           \<lparr>tasks = [(1, \<lparr>task_id = 1, task_text = js ''a'', task_completed = True\<rparr>)],
            currentId = 3\<rparr>)"
  by (simp add: routing_eval put_task_def delete_task_def parseInt_eval updateTaskSchema_def
      updateTask_at_def deleteTask_at_def updateTask_def deleteTask_def example_store_def
      integer_param_def isDecimalDigit_def)

text \<open>
  The requests that the routes \<^verbatim>\<open>PUT /api/tasks/:id\<close> and \<^verbatim>\<open>DELETE /api/tasks/:id\<close> match
  are those whose path is \<^verbatim>\<open>/api/tasks/x\<close> or \<^verbatim>\<open>/api/tasks/x/\<close>, the two literals in any
  case of letters and \<open>x\<close> non-empty; the id parameter is \<open>x\<close> decoded.
\<close>

lemma match_path_end:
  "match_path [] rest = Matched ps \<longleftrightarrow> (rest = [] \<or> rest = [[]]) \<and> ps = []"
proof (cases rest)
  case Nil
  then show ?thesis by auto
next
  case (Cons y ys)
  then show ?thesis by (cases ys) (auto split: if_splits)
qed

lemma match_path_id:
  "match_path [Lit ''api'', Lit ''tasks'', Param ''id''] path = Matched ps \<longleftrightarrow>
     (\<exists>a t x p. (path = [a, t, x] \<or> path = [a, t, x, []]) \<and>
        map toLower a = map toLower (js ''api'') \<and> map toLower t = map toLower (js ''tasks'') \<and>
        x \<noteq> [] \<and> decodeURIComponent x = Some p \<and> ps = [(''id'', p)])"
  (is "?L \<longleftrightarrow> ?R")
proof
  assume ?R
  then show ?L by auto
next
  assume L: ?L
  then obtain a t x rest where path: "path = a # t # x # rest"
    by (cases path rule: remdups_adj.cases; cases "tl (tl path)") (auto split: if_splits)
  from L path have lits: "map toLower a = map toLower (js ''api'')"
      "map toLower t = map toLower (js ''tasks'')" "x \<noteq> []"
    by (auto split: if_splits)
  with L path have inner:
    "(case match_path [] rest of
        Matched ps' \<Rightarrow>
          (case decodeURIComponent x of None \<Rightarrow> Decode_error | Some v \<Rightarrow> Matched ((''id'', v) # ps'))
      | r \<Rightarrow> r) = Matched ps"
    by simp
  then obtain ps' where tail: "match_path [] rest = Matched ps'"
    by (cases "match_path [] rest") auto
  with inner obtain p where p: "decodeURIComponent x = Some p" "ps = (''id'', p) # ps'"
    by (cases "decodeURIComponent x") auto
  from tail have "(rest = [] \<or> rest = [[]]) \<and> ps' = []"
    by (simp add: match_path_end)
  with path lits p show ?R by auto
qed

text \<open>
  C4, amended. For every request to \<^verbatim>\<open>PUT /api/tasks/:id\<close> or \<^verbatim>\<open>DELETE /api/tasks/:id\<close>
  in whose id parameter there is no number to read (once leading white space and one
  optional sign are skipped, what is left is empty, or is \<^verbatim>\<open>0x\<close> or \<^verbatim>\<open>0X\<close> not followed
  by a hexadecimal digit, or else does not start with a decimal digit) the response is
  400 "Invalid task ID" and the store is not modified.
\<close>

theorem invalid_id_rejected:
  "path = [a, t, x] \<or> path = [a, t, x, []] \<Longrightarrow>
   map toLower a = map toLower (js ''api'') \<Longrightarrow>
   map toLower t = map toLower (js ''tasks'') \<Longrightarrow>
   x \<noteq> [] \<Longrightarrow>
   decodeURIComponent x = Some p \<Longrightarrow>
   no_leading_number p \<Longrightarrow>
   m = PUT \<or> m = DELETE \<Longrightarrow>
     handle \<lparr>req_method = m, req_path = path, req_body = reqBody\<rparr> s =
       Some (\<lparr>status = 400, body = Json_message (Text ''Invalid task ID'')\<rparr>, s)"
proof -
  assume path: "path = [a, t, x] \<or> path = [a, t, x, []]"
    and api: "map toLower a = map toLower (js ''api'')"
    and tasks: "map toLower t = map toLower (js ''tasks'')"
    and x: "x \<noteq> []" "decodeURIComponent x = Some p"
    and p: "no_leading_number p"
    and m: "m = PUT \<or> m = DELETE"
  have nan: "parseInt p = NaN"
    using p by (simp add: parseInt_NaN_iff)
  have collection: "match_path [Lit ''api'', Lit ''tasks''] path = No_match"
    using path api tasks x by auto
  have item: "match_path [Lit ''api'', Lit ''tasks'', Param ''id''] path = Matched [(''id'', p)]"
    using path api tasks x by auto
  have put: "put_task [(''id'', p)] reqBody s =
      (\<lparr>status = 400, body = Json_message (Text ''Invalid task ID'')\<rparr>, s)"
    by (simp add: put_task_def nan)
  have delete: "delete_task [(''id'', p)] reqBody s =
      (\<lparr>status = 400, body = Json_message (Text ''Invalid task ID'')\<rparr>, s)"
    by (simp add: delete_task_def nan)
  from m show ?thesis
  proof
    assume "m = PUT"
    then show ?thesis
      by (simp add: handle_def routes_def collection item put)
  next
    assume "m = DELETE"
    then show ?thesis
      by (simp add: handle_def routes_def collection item delete)
  qed
qed

theorem invalid_id_rejected_witness:
  "decodeURIComponent (js ''%20-abc'') = Some (js '' -abc'') \<and>
   no_leading_number (js '' -abc'') \<and>
   handle \<lparr>req_method = PUT, req_path = [js ''api'', js ''Tasks'', js ''%20-abc'', []],
           req_body = JObject [(js ''completed'', JBool True)]\<rparr> example_store =
     Some (\<lparr>status = 400, body = Json_message (Text ''Invalid task ID'')\<rparr>, example_store) \<and>
   handle \<lparr>req_method = DELETE, req_path = [js ''api'', js ''tasks'', js ''0x''],
           req_body = JObject []\<rparr> example_store =
     Some (\<lparr>status = 400, body = Json_message (Text ''Invalid task ID'')\<rparr>, example_store)"
proof -
  have decoded: "decodeURIComponent (js ''%20-abc'') = Some (js '' -abc'')"
    by (simp add: decode_eval)
  have plain: "decodeURIComponent (js ''0x'') = Some (js ''0x'')"
    by (simp add: decode_eval)
  have unreadable: "no_leading_number (js '' -abc'')" "no_leading_number (js ''0x'')"
    by (simp_all add: no_leading_number_def afterSign_def isWhiteSpace_def isDecimalDigit_def
        isHexDigit_def js_def)
  have literals: "map toLower (js ''api'') = map toLower (js ''api'')"
    "map toLower (js ''Tasks'') = map toLower (js ''tasks'')"
    "map toLower (js ''tasks'') = map toLower (js ''tasks'')"
    by (simp_all add: js_def toLower_def)
  have nonempty: "js ''%20-abc'' \<noteq> []" "js ''0x'' \<noteq> []"
    by (simp_all add: js_def)
  have "handle \<lparr>req_method = PUT, req_path = [js ''api'', js ''Tasks'', js ''%20-abc'', []],
           req_body = JObject [(js ''completed'', JBool True)]\<rparr> example_store =
     Some (\<lparr>status = 400, body = Json_message (Text ''Invalid task ID'')\<rparr>, example_store)"
    by (rule invalid_id_rejected
        [OF disjI2 [OF refl] literals(1) literals(2) nonempty(1) decoded unreadable(1)
          disjI1 [OF refl]])
  moreover have "handle \<lparr>req_method = DELETE, req_path = [js ''api'', js ''tasks'', js ''0x''],
           req_body = JObject []\<rparr> example_store =
     Some (\<lparr>status = 400, body = Json_message (Text ''Invalid task ID'')\<rparr>, example_store)"
    by (rule invalid_id_rejected
        [OF disjI1 [OF refl] literals(1) literals(3) nonempty(2) plain unreadable(2)
          disjI2 [OF refl]])
  ultimately show ?thesis using decoded unreadable(1) by blast
qed

end
